theory Spec2Isabelle
  imports Main
begin

section \<open>Strings of code points\<close>

text \<open>
  The program is \<^verbatim>\<open>src/utils/docx_generator.py\<close>. A Python \<^verbatim>\<open>str\<close> is a sequence of
  Unicode code points, so a string is modelled as a list of integers (what \<^verbatim>\<open>ord\<close>
  gives), and a literal of the source is written \<open>u ''...''\<close> when it is ASCII.
\<close>

type_synonym str = "int list"

definition u :: "string \<Rightarrow> str" where
  "u s = map of_char s"

definition isspace :: "int \<Rightarrow> bool" where
  \<comment> \<open>\<^verbatim>\<open>str.isspace\<close> on one code point; it also decides \<^verbatim>\<open>\s\<close> and \<^verbatim>\<open>str.strip()\<close>.\<close>
  "isspace c \<longleftrightarrow>
     (9 \<le> c \<and> c \<le> 13) \<or> (28 \<le> c \<and> c \<le> 32) \<or> c = 133 \<or> c = 160 \<or> c = 5760 \<or>
     (8192 \<le> c \<and> c \<le> 8202) \<or> c = 8232 \<or> c = 8233 \<or> c = 8239 \<or> c = 8287 \<or> c = 12288"

definition decimal_ranges :: "(int \<times> int) list" where
  \<comment> \<open>The code points of category Nd above ASCII (Unicode 14, CPython 3.11), as closed ranges.\<close>
  "decimal_ranges =
    [(1632, 1641), (1776, 1785), (1984, 1993), (2406, 2415), (2534, 2543), (2662, 2671),
     (2790, 2799), (2918, 2927), (3046, 3055), (3174, 3183), (3302, 3311), (3430, 3439),
     (3558, 3567), (3664, 3673), (3792, 3801), (3872, 3881), (4160, 4169), (4240, 4249),
     (6112, 6121), (6160, 6169), (6470, 6479), (6608, 6617), (6784, 6793), (6800, 6809),
     (6992, 7001), (7088, 7097), (7232, 7241), (7248, 7257), (42528, 42537), (43216, 43225),
     (43264, 43273), (43472, 43481), (43504, 43513), (43600, 43609), (44016, 44025),
     (65296, 65305), (66720, 66729), (68912, 68921), (69734, 69743), (69872, 69881),
     (69942, 69951), (70096, 70105), (70384, 70393), (70736, 70745), (70864, 70873),
     (71248, 71257), (71360, 71369), (71472, 71481), (71904, 71913), (72016, 72025),
     (72784, 72793), (73040, 73049), (73120, 73129), (92768, 92777), (92864, 92873),
     (93008, 93017), (120782, 120831), (123200, 123209), (123632, 123641), (125264, 125273),
     (130032, 130041)]"

definition isdecimal :: "int \<Rightarrow> bool" where
  \<comment> \<open>\<^verbatim>\<open>\d\<close> of a \<^verbatim>\<open>str\<close> pattern: any Unicode decimal digit.\<close>
  "isdecimal c \<longleftrightarrow>
     (if c < 1632 then 48 \<le> c \<and> c \<le> 57
      else list_ex (\<lambda>(lo, hi). lo \<le> c \<and> c \<le> hi) decimal_ranges)"

definition strip :: "str \<Rightarrow> str" where
  \<comment> \<open>\<^verbatim>\<open>s.strip()\<close>\<close>
  "strip s = rev (dropWhile isspace (rev (dropWhile isspace s)))"

definition startswith :: "str \<Rightarrow> str \<Rightarrow> bool" where
  \<comment> \<open>\<^verbatim>\<open>s.startswith(p)\<close>\<close>
  "startswith s p \<longleftrightarrow> take (length p) s = p"

definition endswith :: "str \<Rightarrow> str \<Rightarrow> bool" where
  \<comment> \<open>\<^verbatim>\<open>s.endswith(p)\<close>\<close>
  "endswith s p \<longleftrightarrow> length p \<le> length s \<and> drop (length s - length p) s = p"

definition slice :: "nat \<Rightarrow> nat \<Rightarrow> str \<Rightarrow> str" where
  \<comment> \<open>\<^verbatim>\<open>s[a:-b]\<close> for \<open>b > 0\<close>: the end \<open>len(s) - b\<close> is clamped at 0, and an
      empty range gives the empty string.\<close>
  "slice a b s = drop a (take (length s - b) s)"

fun split_from :: "int \<Rightarrow> str \<Rightarrow> str \<Rightarrow> str list" where
  "split_from sep cur [] = [cur]"
| "split_from sep cur (c # cs) =
     (if c = sep then cur # split_from sep [] cs else split_from sep (cur @ [c]) cs)"

definition split :: "int \<Rightarrow> str \<Rightarrow> str list" where
  \<comment> \<open>\<^verbatim>\<open>s.split(sep)\<close> for a separator of one code point; the first argument of
      \<open>split_from\<close> is the piece being read.\<close>
  "split sep s = split_from sep [] s"

fun contains :: "str \<Rightarrow> str \<Rightarrow> bool" where
  \<comment> \<open>\<^verbatim>\<open>p in s\<close>\<close>
  "contains [] p = (p = [])"
| "contains (c # cs) p = (startswith (c # cs) p \<or> contains cs p)"

section \<open>The inline pattern\<close>

text \<open>
  \<^verbatim>\<open>pattern = r'(\*\*.*?\*\*|\*[^*]+\*|\$.*?\$)'\<close>.
  Each function below takes the text from the position where the match is tried and
  returns the length of the match there. \<^verbatim>\<open>.\<close> is any code point but the line feed.
\<close>

fun lazy_until_stars :: "str \<Rightarrow> nat option" where
  \<comment> \<open>\<^verbatim>\<open>.*?\*\*\<close>: the number of code points taken by \<^verbatim>\<open>.*?\<close>\<close>
  "lazy_until_stars [] = None"
| "lazy_until_stars [c] = None"
| "lazy_until_stars (c # d # cs) =
     (if c = 42 \<and> d = 42 then Some 0
      else if c = 10 then None
      else map_option Suc (lazy_until_stars (d # cs)))"

fun lazy_until_dollar :: "str \<Rightarrow> nat option" where
  \<comment> \<open>\<^verbatim>\<open>.*?\$\<close>\<close>
  "lazy_until_dollar [] = None"
| "lazy_until_dollar (c # cs) =
     (if c = 36 then Some 0
      else if c = 10 then None
      else map_option Suc (lazy_until_dollar cs))"

definition match_bold :: "str \<Rightarrow> nat option" where
  \<comment> \<open>\<^verbatim>\<open>\*\*.*?\*\*\<close>\<close>
  "match_bold s =
     (if startswith s [42, 42] then map_option (\<lambda>k. 2 + k + 2) (lazy_until_stars (drop 2 s))
      else None)"

definition match_italic :: "str \<Rightarrow> nat option" where
  \<comment> \<open>\<^verbatim>\<open>\*[^*]+\*\<close>: the greedy class takes every code point up to the next star, and
      giving some back never helps, since what follows a shorter run is not a star.\<close>
  "match_italic s =
     (if startswith s [42] then
        (let n = length (takeWhile (\<lambda>c. c \<noteq> 42) (drop 1 s)) in
         if 1 \<le> n \<and> startswith (drop (1 + n) s) [42] then Some (1 + n + 1) else None)
      else None)"

definition match_formula :: "str \<Rightarrow> nat option" where
  \<comment> \<open>\<^verbatim>\<open>\$.*?\$\<close>\<close>
  "match_formula s =
     (if startswith s [36] then map_option (\<lambda>k. 1 + k + 1) (lazy_until_dollar (drop 1 s))
      else None)"

definition match_inline :: "str \<Rightarrow> nat option" where
  \<comment> \<open>the alternatives in the order of the pattern\<close>
  "match_inline s =
     (case match_bold s of Some n \<Rightarrow> Some n
      | None \<Rightarrow> (case match_italic s of Some n \<Rightarrow> Some n
         | None \<Rightarrow> match_formula s))"

lemma lazy_until_stars_bound: "lazy_until_stars s = Some k \<Longrightarrow> k + 2 \<le> length s"
  by (induction s arbitrary: k rule: lazy_until_stars.induct) (auto split: if_splits)

lemma lazy_until_dollar_bound: "lazy_until_dollar s = Some k \<Longrightarrow> k + 1 \<le> length s"
  by (induction s arbitrary: k) (auto split: if_splits)

lemma match_inline_bounds:
  assumes "match_inline s = Some n"
  shows "2 \<le> n \<and> n \<le> length s"
proof -
  have b: "match_bold s = Some m \<Longrightarrow> 2 \<le> m \<and> m \<le> length s" for m
    by (auto simp: match_bold_def split: if_splits dest!: lazy_until_stars_bound)
  have f: "match_formula s = Some m \<Longrightarrow> 2 \<le> m \<and> m \<le> length s" for m
    by (auto simp: match_formula_def split: if_splits dest!: lazy_until_dollar_bound)
  have i: "match_italic s = Some m \<Longrightarrow> 2 \<le> m \<and> m \<le> length s" for m
  proof -
    assume a: "match_italic s = Some m"
    let ?n = "length (takeWhile (\<lambda>c. c \<noteq> 42) (drop 1 s))"
    from a have m: "m = 1 + ?n + 1" and st: "startswith (drop (1 + ?n) s) [42]"
      by (auto simp: match_italic_def Let_def split: if_splits)
    from st have "drop (1 + ?n) s \<noteq> []"
      by (auto simp: startswith_def)
    then have "1 + ?n < length s" by simp
    with m show ?thesis by simp
  qed
  from assms show ?thesis
    by (auto simp: match_inline_def split: option.splits dest: b f i)
qed

function re_split_from :: "str \<Rightarrow> str \<Rightarrow> str list" where
  \<comment> \<open>\<^verbatim>\<open>re.split(pattern, text)\<close> with the one capturing group: the text before each
      match, then the match, and the text after the last match. The first argument is
      the unmatched text scanned so far.\<close>
  "re_split_from cur [] = [cur]"
| "re_split_from cur (c # cs) =
     (case match_inline (c # cs) of
        Some n \<Rightarrow> cur # take n (c # cs) # re_split_from [] (drop n (c # cs))
      | None \<Rightarrow> re_split_from (cur @ [c]) cs)"
  by pat_completeness auto
termination
proof (relation "measure (\<lambda>(cur, s). length s)")
  show "wf (measure (\<lambda>(cur, s). length s))" by simp
next
  fix cur :: str and c cs n
  assume "match_inline (c # cs) = Some n"
  from match_inline_bounds [OF this]
  show "(([], drop n (c # cs)), (cur, c # cs)) \<in> measure (\<lambda>(cur, s). length s)"
    by simp
next
  fix cur :: str and c cs
  show "((cur @ [c], cs), (cur, c # cs)) \<in> measure (\<lambda>(cur, s). length s)"
    by simp
qed

definition re_split :: "str \<Rightarrow> str list" where
  "re_split s = re_split_from [] s"

section \<open>Failures\<close>

text \<open>
  An exception is a value of \<open>error\<close>, and a call that can raise returns \<open>error + 'a\<close>.
  Python raises \<^verbatim>\<open>ValueError\<close> both for \<^verbatim>\<open>max\<close> of an empty sequence and, from the
  library that builds the document, for a text that XML cannot hold; the two are kept
  apart here as \<open>MaxOfEmpty\<close> and \<open>NotXMLCompatible\<close>.
  \<open>and_then m f\<close> is the statement \<open>f\<close> after the statement \<open>m\<close>: an exception of \<open>m\<close>
  leaves at once.
\<close>

datatype error = IndexError | MaxOfEmpty | NotXMLCompatible

definition and_then :: "error + 'a \<Rightarrow> ('a \<Rightarrow> error + 'b) \<Rightarrow> error + 'b" where
  "and_then m f = (case m of Inl e \<Rightarrow> Inl e | Inr x \<Rightarrow> f x)"

definition raises_only_xml :: "error + 'a \<Rightarrow> bool" where
  \<comment> \<open>the call returns, or what it raises is the library's refusal of a text\<close>
  "raises_only_xml m \<longleftrightarrow> (case m of Inl e \<Rightarrow> e = NotXMLCompatible | Inr x \<Rightarrow> True)"

section \<open>Runs and the inline formatter\<close>

text \<open>
  The generator writes text into the document with python-docx (\<^verbatim>\<open>paragraph.add_run(text)\<close>,
  \<^verbatim>\<open>document.add_heading(text, level)\<close>), which stores it in an lxml element. lxml takes
  only text that XML can hold and raises \<^verbatim>\<open>ValueError\<close> otherwise (\<open>NotXMLCompatible\<close>): it refuses the code
  points below 32 other than tab, line feed and carriage return, the surrogates, and
  U+FFFE and U+FFFF.
\<close>

definition xml_char :: "int \<Rightarrow> bool" where
  "xml_char c \<longleftrightarrow>
     (c = 9 \<or> c = 10 \<or> c = 13 \<or> 32 \<le> c) \<and> (c < 55296 \<or> 57343 < c) \<and> c \<noteq> 65534 \<and> c \<noteq> 65535"

definition xml_compatible :: "str \<Rightarrow> bool" where
  "xml_compatible s \<longleftrightarrow> list_all xml_char s"

datatype run_style = Plain | Bold | Italic | Formula

datatype run = Run (style: run_style) (run_text: str)

definition add_run :: "run list \<Rightarrow> run_style \<Rightarrow> str \<Rightarrow> error + run list" where
  \<comment> \<open>\<^verbatim>\<open>run = paragraph.add_run(text)\<close> and the style set on the run. \<open>Formula\<close> is the
      italic run coloured purple.\<close>
  "add_run paragraph st s =
     (if xml_compatible s then Inr (paragraph @ [Run st s]) else Inl NotXMLCompatible)"

definition format_part :: "run list \<Rightarrow> str \<Rightarrow> error + run list" where
  \<comment> \<open>the body of the loop over \<^verbatim>\<open>parts\<close>\<close>
  "format_part paragraph part =
     (if part = [] then Inr paragraph
      else if startswith part [42, 42] \<and> endswith part [42, 42]
        then add_run paragraph Bold (slice 2 2 part)
      else if startswith part [42] \<and> endswith part [42] \<and> \<not> startswith part [42, 42]
        then add_run paragraph Italic (slice 1 1 part)
      else if startswith part [36] \<and> endswith part [36]
        then add_run paragraph Formula (slice 1 1 part)
      else add_run paragraph Plain part)"

fun format_parts :: "run list \<Rightarrow> str list \<Rightarrow> error + run list" where
  \<comment> \<open>\<^verbatim>\<open>for part in parts: ...\<close>\<close>
  "format_parts paragraph [] = Inr paragraph"
| "format_parts paragraph (part # parts) =
     (case format_part paragraph part of
        Inl e \<Rightarrow> Inl e
      | Inr paragraph' \<Rightarrow> format_parts paragraph' parts)"

definition add_formatted_text :: "run list \<Rightarrow> str \<Rightarrow> error + run list" where
  \<comment> \<open>\<^verbatim>\<open>_add_formatted_text(paragraph, text)\<close>: the paragraph's runs, extended\<close>
  "add_formatted_text paragraph txt = format_parts paragraph (re_split txt)"

section \<open>The other patterns\<close>

definition match_numbered :: "str \<Rightarrow> nat option" where
  \<comment> \<open>\<^verbatim>\<open>re.match(r'^\d+\.\s', line)\<close>: the length of the match. The digits are taken
      greedily; a shorter run would be followed by a digit, not by the period.\<close>
  "match_numbered s =
     (let n = length (takeWhile isdecimal s) in
      if 1 \<le> n \<and> startswith (drop n s) [46] \<and> list_ex isspace (take 1 (drop (n + 1) s))
      then Some (n + 2) else None)"

definition sub_numbered :: "str \<Rightarrow> str" where
  \<comment> \<open>\<^verbatim>\<open>re.sub(r'^\d+\.\s', '', line)\<close>: the pattern is anchored, so at most the
      match at the start is removed.\<close>
  "sub_numbered s = (case match_numbered s of Some n \<Rightarrow> drop n s | None \<Rightarrow> s)"

fun lazy_until_bracket :: "str \<Rightarrow> nat option" where
  \<comment> \<open>\<^verbatim>\<open>.*?\]\<close>\<close>
  "lazy_until_bracket [] = None"
| "lazy_until_bracket (c # cs) =
     (if c = 93 then Some 0
      else if c = 10 then None
      else map_option Suc (lazy_until_bracket cs))"

definition match_diagram :: "str \<Rightarrow> str option" where
  \<comment> \<open>\<^verbatim>\<open>\[DIAGRAM:\s*(.*?)\]\<close> tried at the start of \<open>s\<close>: group 1 of the match. The
      greedy \<^verbatim>\<open>\s*\<close> takes all the white space; giving some back would leave it to
      \<^verbatim>\<open>.\<close> and change neither the success nor, as the first try wins, the group.\<close>
  "match_diagram s =
     (if startswith s (u ''[DIAGRAM:'') then
        (let r = dropWhile isspace (drop 9 s) in
         map_option (\<lambda>k. take k r) (lazy_until_bracket r))
      else None)"

fun search_diagram :: "str \<Rightarrow> str option" where
  \<comment> \<open>\<^verbatim>\<open>re.search(r'\[DIAGRAM:\s*(.*?)\]', line)\<close>: \<open>None\<close>, or group 1 of the
      leftmost match\<close>
  "search_diagram [] = None"
| "search_diagram (c # cs) =
     (case match_diagram (c # cs) of Some d \<Rightarrow> Some d | None \<Rightarrow> search_diagram cs)"

definition is_separator_line :: "str \<Rightarrow> bool" where
  \<comment> \<open>\<^verbatim>\<open>re.match(r'^[\s|:-]+$', line)\<close>\<close>
  "is_separator_line s \<longleftrightarrow>
     s \<noteq> [] \<and> list_all (\<lambda>c. isspace c \<or> c = 124 \<or> c = 58 \<or> c = 45) s"

section \<open>The document and the operations that extend it\<close>

text \<open>
  The document is the sequence of what the generator's methods add to it, one block for
  each call: \<^verbatim>\<open>_add_list\<close> adds a run of list paragraphs, all of one style, which is
  one \<open>ListBlock\<close>; \<^verbatim>\<open>_add_table_from_markdown\<close> adds a table, whose cells hold the
  runs of their first paragraph, and the empty paragraph after it. Fonts, colours,
  alignment and indentation are not modelled, nor are the runs with a fixed text that
  open a blockquote and a diagram placeholder.
\<close>

datatype list_type = Bullet | Numbered

datatype list_style = ListBullet | ListNumber

datatype block =
    Heading nat str
  | Paragraph "run list"
  | ListBlock list_style "run list list"
  | Blockquote "run list"
  | DiagramPlaceholder str
  | Table "run list list list"
  | Separator

definition getitem :: "'a list \<Rightarrow> nat \<Rightarrow> error + 'a" where
  \<comment> \<open>\<^verbatim>\<open>xs[n]\<close> for \<open>n \<ge> 0\<close>\<close>
  "getitem xs n = (if n < length xs then Inr (xs ! n) else Inl IndexError)"

definition py_max :: "nat list \<Rightarrow> error + nat" where
  \<comment> \<open>\<^verbatim>\<open>max(...)\<close>, which raises on an empty sequence\<close>
  "py_max xs = (case xs of [] \<Rightarrow> Inl MaxOfEmpty | x # ys \<Rightarrow> Inr (fold max ys x))"

definition add_heading :: "block list \<Rightarrow> str \<Rightarrow> nat \<Rightarrow> error + block list" where
  \<comment> \<open>\<^verbatim>\<open>document.add_heading(text, level)\<close>, which puts the text in a run; the levels
      passed are 0, 1 and 2, all of them styles of the document\<close>
  "add_heading doc txt level =
     (if xml_compatible txt then Inr (doc @ [Heading level txt]) else Inl NotXMLCompatible)"

definition add_paragraph :: "block list \<Rightarrow> str \<Rightarrow> error + block list" where
  "add_paragraph doc txt =
     and_then (add_formatted_text [] txt) (\<lambda>runs. Inr (doc @ [Paragraph runs]))"

fun format_items :: "str list \<Rightarrow> error + run list list" where
  \<comment> \<open>\<^verbatim>\<open>for item in items: ...\<close>: one paragraph for each item\<close>
  "format_items [] = Inr []"
| "format_items (item # items) =
     (case add_formatted_text [] item of
        Inl e \<Rightarrow> Inl e
      | Inr runs \<Rightarrow>
          (case format_items items of
             Inl e \<Rightarrow> Inl e
           | Inr paragraphs \<Rightarrow> Inr (runs # paragraphs)))"

definition add_list :: "block list \<Rightarrow> str list \<Rightarrow> list_type option \<Rightarrow> error + block list" where
  \<comment> \<open>no item, nothing added\<close>
  "add_list doc items list_type =
     (if items = [] then Inr doc
      else and_then (format_items items) (\<lambda>paragraphs.
        Inr (doc @ [ListBlock (if list_type = Some Numbered then ListNumber else ListBullet)
                      paragraphs])))"

definition add_blockquote :: "block list \<Rightarrow> str \<Rightarrow> error + block list" where
  \<comment> \<open>the runs after the bar that opens the paragraph\<close>
  "add_blockquote doc txt =
     and_then (add_formatted_text [] txt) (\<lambda>runs. Inr (doc @ [Blockquote runs]))"

definition add_diagram_placeholder :: "block list \<Rightarrow> str \<Rightarrow> error + block list" where
  \<comment> \<open>the description is the text of a run\<close>
  "add_diagram_placeholder doc description =
     (if xml_compatible description then Inr (doc @ [DiagramPlaceholder description])
      else Inl NotXMLCompatible)"

definition parse_row :: "str \<Rightarrow> str list" where
  \<comment> \<open>\<^verbatim>\<open>[cell.strip() for cell in line.split('|') if cell.strip()]\<close>\<close>
  "parse_row line = map strip (filter (\<lambda>cell. strip cell \<noteq> []) (split 124 line))"

fun parse_rows :: "str list \<Rightarrow> str list list" where
  \<comment> \<open>the loop that builds \<^verbatim>\<open>rows\<close>\<close>
  "parse_rows [] = []"
| "parse_rows (line # ls) =
     (if is_separator_line line then parse_rows ls
      else (let cells = parse_row line in
            if cells \<noteq> [] then cells # parse_rows ls else parse_rows ls))"

definition add_table :: "nat \<Rightarrow> nat \<Rightarrow> run list list list" where
  \<comment> \<open>\<^verbatim>\<open>document.add_table(rows, cols)\<close>: a grid of empty cells\<close>
  "add_table rows cols = replicate rows (replicate cols [])"

definition cell_add_run ::
    "run list list list \<Rightarrow> nat \<Rightarrow> nat \<Rightarrow> run_style \<Rightarrow> str \<Rightarrow> error + run list list list" where
  \<comment> \<open>\<^verbatim>\<open>table.rows[i].cells[j].paragraphs[0].add_run(cell_text)\<close>\<close>
  "cell_add_run table i j st cell_text =
     and_then (getitem table i) (\<lambda>row.
     and_then (getitem row j) (\<lambda>cell.
     and_then (add_run cell st cell_text) (\<lambda>cell'.
     Inr (table[i := row[j := cell']]))))"

fun fill_row ::
    "run list list list \<Rightarrow> nat \<Rightarrow> nat \<Rightarrow> nat \<Rightarrow> str list \<Rightarrow> error + run list list list" where
  \<comment> \<open>the inner loop, \<^verbatim>\<open>for j, cell_text in enumerate(row)\<close>, from column \<open>j\<close> on\<close>
  "fill_row table num_cols i j [] = Inr table"
| "fill_row table num_cols i j (cell_text # cs) =
     (if j < num_cols then
        (case cell_add_run table i j (if i = 0 then Bold else Plain) cell_text of
           Inl e \<Rightarrow> Inl e
         | Inr table' \<Rightarrow> fill_row table' num_cols i (j + 1) cs)
      else fill_row table num_cols i (j + 1) cs)"

fun fill_rows ::
    "run list list list \<Rightarrow> nat \<Rightarrow> nat \<Rightarrow> str list list \<Rightarrow> error + run list list list" where
  \<comment> \<open>the outer loop, \<^verbatim>\<open>for i, row in enumerate(rows)\<close>, from row \<open>i\<close> on\<close>
  "fill_rows table num_cols i [] = Inr table"
| "fill_rows table num_cols i (row # rs) =
     (case fill_row table num_cols i 0 row of
        Inl e \<Rightarrow> Inl e
      | Inr table' \<Rightarrow> fill_rows table' num_cols (i + 1) rs)"

definition add_table_from_markdown :: "block list \<Rightarrow> str list \<Rightarrow> error + block list" where
  "add_table_from_markdown doc table_lines =
     (if table_lines = [] then Inr doc
      else (let rows = parse_rows table_lines in
        if rows = [] then Inr doc
        else and_then (py_max (map length rows)) (\<lambda>num_cols.
             and_then (fill_rows (add_table (length rows) num_cols) num_cols 0 rows) (\<lambda>table.
             Inr (doc @ [Table table, Paragraph []])))))"

section \<open>The scan over the lines\<close>

text \<open>
  The state of the loop of \<^verbatim>\<open>_process_content\<close>: the index \<^verbatim>\<open>i\<close>, the two
  variables of the pending list, and the document built so far.
\<close>

record scan =
  line_index :: nat
  current_list_type :: "list_type option"
  list_items :: "str list"
  document :: "block list"

definition flush_list :: "scan \<Rightarrow> error + scan" where
  \<comment> \<open>\<^verbatim>\<open>if list_items: self._add_list(list_items, current_list_type);
      list_items = []; current_list_type = None\<close>\<close>
  "flush_list s =
     (if list_items s \<noteq> [] then
        and_then (add_list (document s) (list_items s) (current_list_type s)) (\<lambda>doc.
        Inr (s\<lparr>document := doc, list_items := [], current_list_type := None\<rparr>))
      else Inr s)"

definition next_line :: "scan \<Rightarrow> scan" where
  \<comment> \<open>\<^verbatim>\<open>i += 1\<close>\<close>
  "next_line s = s\<lparr>line_index := line_index s + 1\<rparr>"

function collect_table_lines :: "str list \<Rightarrow> nat \<Rightarrow> str list \<Rightarrow> error + (str list \<times> nat)" where
  \<comment> \<open>\<^verbatim>\<open>while j < len(lines) and '|' in lines[j]: table_lines.append(lines[j].strip()); j += 1\<close>\<close>
  "collect_table_lines lines j table_lines =
     (if j < length lines then
        (case getitem lines j of
           Inl e \<Rightarrow> Inl e
         | Inr l \<Rightarrow>
             if 124 \<in> set l then collect_table_lines lines (j + 1) (table_lines @ [strip l])
             else Inr (table_lines, j))
      else Inr (table_lines, j))"
  by pat_completeness auto
termination
  by (relation "measure (\<lambda>(lines, j, table_lines). length lines - j)") auto

declare collect_table_lines.simps [simp del]

definition classify_line :: "str list \<Rightarrow> scan \<Rightarrow> str \<Rightarrow> error + scan" where
  \<comment> \<open>the \<^verbatim>\<open>if ... elif ... else\<close> chain on a line that is not empty\<close>
  "classify_line lines s line =
     (if startswith line (u ''## '') \<and> \<not> startswith line (u ''### '') then
        and_then (flush_list s) (\<lambda>s1.
        and_then (add_heading (document s1) (drop 3 line) 1) (\<lambda>doc.
        Inr (s1\<lparr>document := doc\<rparr>)))
      else if startswith line (u ''### '') then
        and_then (flush_list s) (\<lambda>s1.
        and_then (add_heading (document s1) (drop 4 line) 2) (\<lambda>doc.
        Inr (s1\<lparr>document := doc\<rparr>)))
      else if startswith line (u ''# '') \<and> \<not> startswith line (u ''## '') then
        and_then (flush_list s) (\<lambda>s1.
        and_then (add_heading (document s1) (drop 2 line) 0) (\<lambda>doc.
        Inr (s1\<lparr>document := doc\<rparr>)))
      else if startswith line (u ''- '') \<or> startswith line [226, 8364, 162, 32] then
        Inr (s\<lparr>current_list_type := Some Bullet, list_items := list_items s @ [drop 2 line]\<rparr>)
      else if match_numbered line \<noteq> None then
        Inr (s\<lparr>current_list_type := Some Numbered,
               list_items := list_items s @ [sub_numbered line]\<rparr>)
      else if startswith line (u ''> '') then
        and_then (flush_list s) (\<lambda>s1.
        and_then (add_blockquote (document s1) (drop 2 line)) (\<lambda>doc.
        Inr (s1\<lparr>document := doc\<rparr>)))
      else if contains line (u ''[DIAGRAM:'') then
        and_then (flush_list s) (\<lambda>s1.
          (case search_diagram line of
             Some description \<Rightarrow>
               and_then (add_diagram_placeholder (document s1) description) (\<lambda>doc.
               Inr (s1\<lparr>document := doc\<rparr>))
           | None \<Rightarrow> Inr s1))
      else if 124 \<in> set line \<and> 2 \<le> count_list line 124 then
        and_then (flush_list s) (\<lambda>s1.
        and_then (collect_table_lines lines (line_index s + 1) [line]) (\<lambda>(table_lines, j).
        and_then (add_table_from_markdown (document s1) table_lines) (\<lambda>doc.
        Inr (s1\<lparr>document := doc, line_index := j - 1\<rparr>))))
      else
        and_then (flush_list s) (\<lambda>s1.
        and_then (add_paragraph (document s1) line) (\<lambda>doc.
        Inr (s1\<lparr>document := doc\<rparr>))))"

definition loop_body :: "str list \<Rightarrow> scan \<Rightarrow> error + scan" where
  \<comment> \<open>one turn of the \<^verbatim>\<open>while i < len(lines)\<close> loop: the empty line, which ends with
      \<^verbatim>\<open>i += 1; continue\<close>, or the chain and the \<^verbatim>\<open>i += 1\<close> after it\<close>
  "loop_body lines s =
     and_then (getitem lines (line_index s)) (\<lambda>raw.
       (let line = strip raw in
        if line = [] then and_then (flush_list s) (\<lambda>s1. Inr (next_line s1))
        else and_then (classify_line lines s line) (\<lambda>s'. Inr (next_line s'))))"

lemma and_then_simps [simp]:
  "and_then (Inl e) f = Inl e" "and_then (Inr x) f = f x"
  by (simp_all add: and_then_def)

lemma and_then_Inr:
  "and_then m f = Inr y \<longleftrightarrow> (\<exists>x. m = Inr x \<and> f x = Inr y)"
  by (cases m) simp_all

lemma collect_table_lines_eq:
  "collect_table_lines lines j table_lines =
     Inr (table_lines @ map strip (takeWhile (\<lambda>l. 124 \<in> set l) (drop j lines)),
          j + length (takeWhile (\<lambda>l. 124 \<in> set l) (drop j lines)))"
proof (induction lines j table_lines rule: collect_table_lines.induct)
  case (1 lines j table_lines)
  show ?case
  proof (cases "j < length lines")
    case False
    then show ?thesis by (simp add: collect_table_lines.simps [of lines j])
  next
    case True
    then have d: "drop j lines = lines ! j # drop (Suc j) lines"
      by (simp add: Cons_nth_drop_Suc)
    show ?thesis
    proof (cases "124 \<in> set (lines ! j)")
      case False
      with True d show ?thesis
        by (simp add: collect_table_lines.simps [of lines j] getitem_def)
    next
      case p: True
      with True "1.IH" [of "lines ! j"]
      have "collect_table_lines lines (j + 1) (table_lines @ [strip (lines ! j)]) =
              Inr ((table_lines @ [strip (lines ! j)]) @
                     map strip (takeWhile (\<lambda>l. 124 \<in> set l) (drop (j + 1) lines)),
                   j + 1 + length (takeWhile (\<lambda>l. 124 \<in> set l) (drop (j + 1) lines)))"
        by (simp add: getitem_def)
      with True p d show ?thesis
        by (simp add: collect_table_lines.simps [of lines j] getitem_def)
    qed
  qed
qed

lemma flush_list_index: "flush_list s = Inr s1 \<Longrightarrow> line_index s1 = line_index s"
  by (auto simp: flush_list_def and_then_Inr split: if_splits)

lemma classify_line_index:
  assumes "classify_line lines s line = Inr s'"
  shows "line_index s \<le> line_index s'"
  using assms unfolding classify_line_def
  by (auto simp: and_then_Inr collect_table_lines_eq dest!: flush_list_index
           split: if_splits option.splits)

lemma loop_body_advances:
  assumes "loop_body lines s = Inr s'"
  shows "line_index s < line_index s'"
  using assms unfolding loop_body_def Let_def
  by (auto simp: and_then_Inr next_line_def dest!: flush_list_index classify_line_index
           split: if_splits)

function process_loop :: "str list \<Rightarrow> scan \<Rightarrow> error + scan" where
  \<comment> \<open>\<^verbatim>\<open>while i < len(lines): ...\<close>\<close>
  "process_loop lines s =
     (if line_index s < length lines then
        (case loop_body lines s of
           Inl e \<Rightarrow> Inl e
         | Inr s' \<Rightarrow> process_loop lines s')
      else Inr s)"
  by pat_completeness auto
termination
proof (relation "measure (\<lambda>(lines, s). length lines - line_index s)")
  show "wf (measure (\<lambda>(lines, s). length lines - line_index s))" by simp
next
  fix lines :: "str list" and s s' :: scan
  assume "line_index s < length lines" and "loop_body lines s = Inr s'"
  with loop_body_advances [of lines s s']
  show "((lines, s'), (lines, s)) \<in> measure (\<lambda>(lines, s). length lines - line_index s)"
    by simp
qed

declare process_loop.simps [simp del]

definition process_content :: "block list \<Rightarrow> str \<Rightarrow> error + block list" where
  \<comment> \<open>\<^verbatim>\<open>_process_content(text)\<close> on the document \<open>doc\<close>: the document it leaves\<close>
  "process_content doc txt =
     (let lines = split 10 txt in
      and_then (process_loop lines
                 \<lparr>line_index = 0, current_list_type = None, list_items = [], document = doc\<rparr>)
        (\<lambda>s. if list_items s \<noteq> [] then add_list (document s) (list_items s) (current_list_type s)
             else Inr (document s)))"

definition segment :: "str \<Rightarrow> error + block list" where
  \<comment> \<open>the blocks \<^verbatim>\<open>_process_content\<close> adds for a text\<close>
  "segment txt = process_content [] txt"

section \<open>The generator object\<close>





section \<open>The inline formatter on unmatched delimiters\<close>

text \<open>
  C1. The formatter is to keep every unmatched delimiter in a plain run, so that the texts
  of the runs, concatenated, are the fragment without the delimiters of the matched spans.
  On the fragment \<^verbatim>\<open>*\<close> nothing matches, \<^verbatim>\<open>re.split\<close> returns the fragment as its only
  part, and the part, which starts and ends with a star, goes to the italic branch:
  the run is italic and its text is \<^verbatim>\<open>part[1:-1]\<close>, the empty string. The star is lost.
  The same happens to a lone \<^verbatim>\<open>$\<close> and to an unpaired \<^verbatim>\<open>**\<close>.
\<close>

theorem format_drops_lone_delimiter:
  "add_formatted_text [] (u ''*'') = Inr [Run Italic []]
   \<and> map_sum id (\<lambda>runs. concat (map run_text runs)) (add_formatted_text [] (u ''*''))
       \<noteq> Inr (u ''*'')
   \<and> add_formatted_text [] (u ''$'') = Inr [Run Formula []]
   \<and> add_formatted_text [] (u ''**'') = Inr [Run Bold []]
   \<and> add_formatted_text [] (u ''a **b** *'') =
       Inr [Run Plain (u ''a ''), Run Bold (u ''b''), Run Plain (u '' *'')]"
  by code_simp

section \<open>A bullet line followed by a numbered line\<close>

text \<open>
  C2. A numbered line right after a bullet line is to close the bullet list and open a
  numbered list. The bullet branch and the numbered branch of the chain both append to
  \<^verbatim>\<open>list_items\<close> and overwrite \<^verbatim>\<open>current_list_type\<close> without flushing, so the two items
  leave in one call of \<^verbatim>\<open>_add_list\<close>, with the type seen last: one numbered list that
  holds the bullet item too.
\<close>

theorem bullet_then_numbered_is_one_list:
  "segment (u ''- a\<newline>1. b'') =
     Inr [ListBlock ListNumber [[Run Plain (u ''a'')], [Run Plain (u ''b'')]]]
   \<and> segment (u ''- a\<newline>- b'') =
     Inr [ListBlock ListBullet [[Run Plain (u ''a'')], [Run Plain (u ''b'')]]]"
  by code_simp

section \<open>A diagram tag that is not closed\<close>

text \<open>
  C4. A line that contains \<^verbatim>\<open>[DIAGRAM:\<close> with no closing bracket is to become a
  paragraph. The diagram branch is taken for it, the search finds no match, and the branch
  has no \<^verbatim>\<open>else\<close>: nothing is added for the line.
\<close>

theorem unclosed_diagram_line_is_dropped:
  "contains (u ''[DIAGRAM: no close'') (u ''[DIAGRAM:'')
   \<and> search_diagram (u ''[DIAGRAM: no close'') = None
   \<and> segment (u ''[DIAGRAM: no close'') = Inr []
   \<and> segment (u ''before\<newline>[DIAGRAM: no close\<newline>after'') =
       Inr [Paragraph [Run Plain (u ''before'')], Paragraph [Run Plain (u ''after'')]]"
  by code_simp

section \<open>The lines a table takes\<close>

text \<open>
  C3, as stated: once a table is open, a line is appended if and only if it has at least
  two pipes, and a line with exactly one pipe closes the table. The test that opens a table
  asks for two pipes, the loop that continues it asks for \<^verbatim>\<open>'|' in lines[j]\<close>, a
  single pipe. Here the line \<^verbatim>\<open>x|y\<close>, with one pipe, becomes the second row.
\<close>

theorem table_takes_line_with_one_pipe:
  "collect_table_lines [u ''|a|b|'', u ''x|y'', u ''z''] 1 [u ''|a|b|''] =
     Inr ([u ''|a|b|'', u ''x|y''], 2)
   \<and> count_list (u ''x|y'') 124 = 1
   \<and> segment (u ''|a|b|\<newline>x|y\<newline>z'') =
       Inr [Table [[[Run Bold (u ''a'')], [Run Bold (u ''b'')]],
                   [[Run Plain (u ''x'')], [Run Plain (u ''y'')]]],
            Paragraph [], Paragraph [Run Plain (u ''z'')]]"
  by code_simp

text \<open>
  C3, amended: once a table is open at line \<open>j\<close>, the table takes the lines that follow
  for as long as each contains at least one pipe, trimmed, and the first line with no pipe
  (a blank line is one) or the end of the text closes it; the scan resumes at that line.
  Whether a line taken looks like a list item or a heading plays no part.
\<close>

theorem table_continues_while_line_has_pipe:
  "collect_table_lines lines j [line] =
     Inr (line # map strip (takeWhile (\<lambda>l. 124 \<in> set l) (drop j lines)),
          j + length (takeWhile (\<lambda>l. 124 \<in> set l) (drop j lines)))"
  by (simp add: collect_table_lines_eq)

section \<open>The cells of a row\<close>

text \<open>
  C7. Only the empty cells that a leading and a trailing pipe produce are to be dropped,
  and an empty cell inside a row is to keep its place. The comprehension filters on
  \<^verbatim>\<open>cell.strip()\<close> for every cell: the row \<^verbatim>\<open>| a |  | b |\<close> has five pieces and yields
  two cells, and in the grid the generator builds, under the header
  \<^verbatim>\<open>| Name | Age | City |\<close> the row \<^verbatim>\<open>| Bob |  | NYC |\<close> has \<^verbatim>\<open>NYC\<close> in the column of
  \<^verbatim>\<open>Age\<close> and nothing in the column of \<^verbatim>\<open>City\<close>.
\<close>

theorem interior_empty_cell_is_dropped:
  "split 124 (u ''| a |  | b |'') = [[], u '' a '', u ''  '', u '' b '', []]
   \<and> parse_row (u ''| a |  | b |'') = [u ''a'', u ''b'']
   \<and> segment (u ''| Name | Age | City |\<newline>| Bob |  | NYC |'') =
       Inr [Table [[[Run Bold (u ''Name'')], [Run Bold (u ''Age'')], [Run Bold (u ''City'')]],
                   [[Run Plain (u ''Bob'')], [Run Plain (u ''NYC'')], []]],
            Paragraph []]"
  by code_simp

section \<open>Headings\<close>

lemma startswith_iff: "startswith s p \<longleftrightarrow> (\<exists>t. s = p @ t)"
proof
  assume "startswith s p"
  then have "s = p @ drop (length p) s"
    by (metis startswith_def append_take_drop_id)
  then show "\<exists>t. s = p @ t" ..
next
  assume "\<exists>t. s = p @ t"
  then show "startswith s p" by (auto simp: startswith_def)
qed

lemma heading_markers:
  "u ''## '' = [35, 35, 32]" "u ''### '' = [35, 35, 35, 32]" "u ''# '' = [35, 32]"
  by (simp_all add: u_def)

text \<open>
  C5. A line that starts with \<^verbatim>\<open>## \<close> and not with \<^verbatim>\<open>### \<close> gives the heading of
  level 1 with the text after the three code points of the marker; a line that starts
  with \<^verbatim>\<open>### \<close> gives the heading of level 2, the deepest, with the text after four; a
  line that starts with \<^verbatim>\<open># \<close> and not with \<^verbatim>\<open>## \<close> gives the heading of level 0, the
  top one, with the text after two. Each first flushes the pending list, and the heading
  is added unless the library refuses its text. The text \<^verbatim>\<open>## Title\nSome text.\n\<close>
  gives the heading of level 1 \<^verbatim>\<open>Title\<close> and the paragraph \<^verbatim>\<open>Some text.\<close>, and nothing
  else.
\<close>

theorem heading_levels:
  "(startswith line (u ''## '') \<and> \<not> startswith line (u ''### '') \<longrightarrow>
      classify_line lines s line =
        and_then (flush_list s) (\<lambda>s1.
          if xml_compatible (drop 3 line)
          then Inr (s1\<lparr>document := document s1 @ [Heading 1 (drop 3 line)]\<rparr>)
          else Inl NotXMLCompatible))
   \<and> (startswith line (u ''### '') \<longrightarrow>
      classify_line lines s line =
        and_then (flush_list s) (\<lambda>s1.
          if xml_compatible (drop 4 line)
          then Inr (s1\<lparr>document := document s1 @ [Heading 2 (drop 4 line)]\<rparr>)
          else Inl NotXMLCompatible))
   \<and> (startswith line (u ''# '') \<and> \<not> startswith line (u ''## '') \<longrightarrow>
      classify_line lines s line =
        and_then (flush_list s) (\<lambda>s1.
          if xml_compatible (drop 2 line)
          then Inr (s1\<lparr>document := document s1 @ [Heading 0 (drop 2 line)]\<rparr>)
          else Inl NotXMLCompatible))
   \<and> segment (u ''## Title\<newline>Some text.\<newline>'') =
        Inr [Heading 1 (u ''Title''), Paragraph [Run Plain (u ''Some text.'')]]"
proof -
  have a: "startswith line (u ''### '') \<Longrightarrow> \<not> startswith line (u ''## '')"
    by (auto simp: startswith_iff heading_markers)
  have b: "startswith line (u ''# '') \<Longrightarrow> \<not> startswith line (u ''### '')"
    by (auto simp: startswith_iff heading_markers)
  have h: "and_then (add_heading d x n) (\<lambda>doc. Inr (s1\<lparr>document := doc\<rparr>)) =
             (if xml_compatible x then Inr (s1\<lparr>document := d @ [Heading n x]\<rparr>) else Inl NotXMLCompatible)"
    for d x n and s1 :: scan
    by (simp add: add_heading_def)
  have e: "segment (u ''## Title\<newline>Some text.\<newline>'') =
        Inr [Heading 1 (u ''Title''), Paragraph [Run Plain (u ''Some text.'')]]"
    by code_simp
  show ?thesis
    using a b e by (simp add: classify_line_def h del: One_nat_def)
qed

theorem heading_levels_witness:
  "classify_line [] \<lparr>line_index = 0, current_list_type = Some Bullet, list_items = [u ''x''], document = []\<rparr> (u ''## Mid'') =
     Inr \<lparr>line_index = 0, current_list_type = None, list_items = [],
          document = [ListBlock ListBullet [[Run Plain (u ''x'')]], Heading 1 (u ''Mid'')]\<rparr>
   \<and> classify_line [] \<lparr>line_index = 0, current_list_type = Some Bullet, list_items = [u ''x''], document = []\<rparr> (u ''### Deep'') =
     Inr \<lparr>line_index = 0, current_list_type = None, list_items = [],
          document = [ListBlock ListBullet [[Run Plain (u ''x'')]], Heading 2 (u ''Deep'')]\<rparr>
   \<and> classify_line [] \<lparr>line_index = 0, current_list_type = Some Bullet, list_items = [u ''x''], document = []\<rparr> (u ''# Top'') =
     Inr \<lparr>line_index = 0, current_list_type = None, list_items = [],
          document = [ListBlock ListBullet [[Run Plain (u ''x'')]], Heading 0 (u ''Top'')]\<rparr>"
proof -
  let ?s = "\<lparr>line_index = 0, current_list_type = Some Bullet, list_items = [u ''x''], document = []\<rparr>"
  have h1: "startswith (u ''## Mid'') (u ''## '') \<and> \<not> startswith (u ''## Mid'') (u ''### '')"
    by code_simp
  have h2: "startswith (u ''### Deep'') (u ''### '')"
    by code_simp
  have h3: "startswith (u ''# Top'') (u ''# '') \<and> \<not> startswith (u ''# Top'') (u ''## '')"
    by code_simp
  have f: "flush_list ?s = Inr \<lparr>line_index = 0, current_list_type = None, list_items = [],
          document = [ListBlock ListBullet [[Run Plain (u ''x'')]]]\<rparr>"
    by code_simp
  have d: "drop 3 (u ''## Mid'') = u ''Mid''" "drop 4 (u ''### Deep'') = u ''Deep''"
      "drop 2 (u ''# Top'') = u ''Top''"
    by code_simp+
  have x: "xml_compatible (u ''Mid'')" "xml_compatible (u ''Deep'')" "xml_compatible (u ''Top'')"
    by code_simp+
  from heading_levels [of "u ''## Mid''" "[]" ?s] h1 f d x
  have 1: "classify_line [] ?s (u ''## Mid'') =
     Inr \<lparr>line_index = 0, current_list_type = None, list_items = [],
          document = [ListBlock ListBullet [[Run Plain (u ''x'')]], Heading 1 (u ''Mid'')]\<rparr>"
    by simp
  from heading_levels [of "u ''### Deep''" "[]" ?s] h2 f d x
  have 2: "classify_line [] ?s (u ''### Deep'') =
     Inr \<lparr>line_index = 0, current_list_type = None, list_items = [],
          document = [ListBlock ListBullet [[Run Plain (u ''x'')]], Heading 2 (u ''Deep'')]\<rparr>"
    by simp
  from heading_levels [of "u ''# Top''" "[]" ?s] h3 f d x
  have 3: "classify_line [] ?s (u ''# Top'') =
     Inr \<lparr>line_index = 0, current_list_type = None, list_items = [],
          document = [ListBlock ListBullet [[Run Plain (u ''x'')]], Heading 0 (u ''Top'')]\<rparr>"
    by simp
  from 1 2 3 show ?thesis by simp
qed

section \<open>The table that is built\<close>

lemma cell_add_run_ok:
  "i < length table \<Longrightarrow> j < length (table ! i) \<Longrightarrow>
     cell_add_run table i j st t =
       (if xml_compatible t then Inr (table[i := (table ! i)[j := table ! i ! j @ [Run st t]]])
        else Inl NotXMLCompatible)"
  by (simp add: cell_add_run_def getitem_def add_run_def)

lemma fresh_row_update:
  assumes "length done < nc"
  shows "(map f done @ replicate (nc - length done) [])[length done := [r]] =
           map f done @ [r] # replicate (nc - Suc (length done)) []"
proof -
  from assms obtain k where k: "nc - length done = Suc k"
    by (cases "nc - length done") auto
  then have "nc - Suc (length done) = k" by simp
  with k show ?thesis by (simp add: list_update_append)
qed

lemma fresh_row_nth:
  assumes "length done < nc"
  shows "(map f done @ replicate (nc - length done) []) ! length done = []"
  using assms by (simp add: nth_append)

lemma fill_row_fresh:
  assumes "(if i = 0 then Bold else Plain) = st"
    and "i < length table"
    and "table ! i = map (\<lambda>t. [Run st t]) done @ replicate (nc - length done) []"
    and "length done + length cells \<le> nc"
  shows "fill_row table nc i (length done) cells =
           (if list_all xml_compatible cells
            then Inr (table[i := map (\<lambda>t. [Run st t]) (done @ cells)
                                  @ replicate (nc - length (done @ cells)) []])
            else Inl NotXMLCompatible)"
  using assms
proof (induction cells arbitrary: table "done")
  case Nil
  from Nil.prems(3)
  have "table[i := map (\<lambda>t. [Run st t]) done @ replicate (nc - length done) []] = table"
    by (metis list_update_id)
  then show ?case by simp
next
  case (Cons t ts)
  let ?f = "\<lambda>t. [Run st t]"
  let ?row' = "map ?f (done @ [t]) @ replicate (nc - length (done @ [t])) []"
  let ?table' = "table[i := ?row']"
  from Cons.prems have lt: "length done < nc" by simp
  then have len: "length done < length (table ! i)"
    using Cons.prems(3) by simp
  have upd: "(table ! i)[length done := table ! i ! length done @ [Run st t]] = ?row'"
    using fresh_row_update [OF lt, of ?f "Run st t"]
          fresh_row_nth [OF lt, of ?f] Cons.prems(3)
    by simp
  have step: "cell_add_run table i (length done) st t =
                (if xml_compatible t then Inr ?table' else Inl NotXMLCompatible)"
    using cell_add_run_ok [OF Cons.prems(2) len] upd by simp
  have ih: "fill_row ?table' nc i (length (done @ [t])) ts =
          (if list_all xml_compatible ts
           then Inr (?table'[i := map ?f ((done @ [t]) @ ts)
                                  @ replicate (nc - length ((done @ [t]) @ ts)) []])
           else Inl NotXMLCompatible)"
    using Cons.prems by (intro Cons.IH) simp_all
  show ?case
  proof (cases "xml_compatible t")
    case False
    with step lt Cons.prems(1) show ?thesis by simp
  next
    case True
    with step ih lt Cons.prems(1) show ?thesis by simp
  qed
qed

lemma fill_row_whole:
  assumes "i < length table" and "table ! i = replicate nc []" and "length cells \<le> nc"
  shows "fill_row table nc i 0 cells =
           (if list_all xml_compatible cells
            then Inr (table[i := map (\<lambda>t. [Run (if i = 0 then Bold else Plain) t]) cells
                                  @ replicate (nc - length cells) []])
            else Inl NotXMLCompatible)"
  using fill_row_fresh [of i "if i = 0 then Bold else Plain" table "[]" nc cells] assms
  by simp

lemma fill_rows_fresh:
  assumes "\<forall>row \<in> set rows. length row \<le> nc"
    and "length pre = i"
  shows "fill_rows (pre @ replicate (length rows) (replicate nc [])) nc i rows =
           (if list_all (list_all xml_compatible) rows
            then Inr (pre @ map (\<lambda>(k, row). map (\<lambda>t. [Run (if k = 0 then Bold else Plain) t]) row
                                            @ replicate (nc - length row) [])
                             (enumerate i rows))
            else Inl NotXMLCompatible)"
  using assms
proof (induction rows arbitrary: pre i)
  case Nil
  then show ?case by simp
next
  case (Cons row rs)
  let ?g = "\<lambda>(k, row). map (\<lambda>t. [Run (if k = 0 then Bold else Plain) t]) row
                                       @ replicate (nc - length row) []"
  let ?table = "pre @ replicate (length (row # rs)) (replicate nc [])"
  have i: "i < length ?table" using Cons.prems by simp
  have r: "?table ! i = replicate nc []" using Cons.prems by (simp add: nth_append)
  have l: "length row \<le> nc" using Cons.prems by simp
  have upd: "?table[i := ?g (i, row)] = (pre @ [?g (i, row)]) @ replicate (length rs) (replicate nc [])"
    using Cons.prems by (simp add: list_update_append)
  have ih: "fill_rows ((pre @ [?g (i, row)]) @ replicate (length rs) (replicate nc [])) nc (i + 1) rs =
          (if list_all (list_all xml_compatible) rs
           then Inr ((pre @ [?g (i, row)]) @ map ?g (enumerate (i + 1) rs))
           else Inl NotXMLCompatible)"
    using Cons.prems by (intro Cons.IH) simp_all
  show ?case
  proof (cases "list_all xml_compatible row")
    case False
    with fill_row_whole [OF i r l] show ?thesis
      by (simp del: replicate.simps)
  next
    case True
    with fill_row_whole [OF i r l] upd ih show ?thesis
      by (simp del: replicate.simps add: enumerate_simps)
  qed
qed

lemma py_max_ok: "xs \<noteq> [] \<Longrightarrow> py_max xs = Inr (Max (set xs))"
proof (cases xs)
  case Nil
  then show "xs \<noteq> [] \<Longrightarrow> py_max xs = Inr (Max (set xs))" by simp
next
  case (Cons x ys)
  have "fold max ys x = Max (set (x # ys))" by (rule Max.set_eq_fold [symmetric])
  with Cons show "py_max xs = Inr (Max (set xs))" by (simp add: py_max_def)
qed

lemma parse_rows_eq:
  "parse_rows table_lines =
     filter (\<lambda>r. r \<noteq> []) (map parse_row (filter (\<lambda>l. \<not> is_separator_line l) table_lines))"
  by (induction table_lines) (simp_all add: Let_def)

lemma add_table_from_markdown_eq:
  assumes "parse_rows table_lines \<noteq> []"
  shows "add_table_from_markdown doc table_lines =
           (if list_all (list_all xml_compatible) (parse_rows table_lines)
            then Inr (doc @ [Table (map (\<lambda>(i, row). map (\<lambda>t. [Run (if i = 0 then Bold else Plain) t]) row
                                       @ replicate (Max (set (map length (parse_rows table_lines))) - length row) [])
                              (enumerate 0 (parse_rows table_lines))),
                       Paragraph []])
            else Inl NotXMLCompatible)"
proof -
  let ?rows = "parse_rows table_lines"
  let ?nc = "Max (set (map length ?rows))"
  from assms have tl: "table_lines \<noteq> []" by auto
  from assms have m: "py_max (map length ?rows) = Inr ?nc"
    by (simp add: py_max_ok)
  have le: "\<forall>row \<in> set ?rows. length row \<le> ?nc"
    by simp
  have "fill_rows ([] @ replicate (length ?rows) (replicate ?nc [])) ?nc 0 ?rows =
          (if list_all (list_all xml_compatible) ?rows
           then Inr ([] @ map (\<lambda>(i, row). map (\<lambda>t. [Run (if i = 0 then Bold else Plain) t]) row
                                       @ replicate (?nc - length row) []) (enumerate 0 ?rows))
           else Inl NotXMLCompatible)"
    using le by (intro fill_rows_fresh) simp_all
  then have f: "fill_rows (add_table (length ?rows) ?nc) ?nc 0 ?rows =
          (if list_all (list_all xml_compatible) ?rows
           then Inr (map (\<lambda>(i, row). map (\<lambda>t. [Run (if i = 0 then Bold else Plain) t]) row
                                       @ replicate (?nc - length row) []) (enumerate 0 ?rows))
           else Inl NotXMLCompatible)"
    by (simp add: add_table_def)
  show ?thesis
    unfolding add_table_from_markdown_def Let_def
    using tl assms m f by simp
qed

lemma table_grid_parsed:
  assumes "parse_rows table_lines \<noteq> []"
  shows "\<exists>grid. add_table_from_markdown doc table_lines =
                 (if \<forall>row \<in> set (parse_rows table_lines). \<forall>c \<in> set row. xml_compatible c
                  then Inr (doc @ [Table grid, Paragraph []]) else Inl NotXMLCompatible)
          \<and> grid = map (\<lambda>(i, row). map (\<lambda>t. [Run (if i = 0 then Bold else Plain) t]) row
                                     @ replicate (Max (set (map length (parse_rows table_lines))) - length row) [])
                       (enumerate 0 (parse_rows table_lines))
          \<and> (\<forall>r \<in> set grid. length r = Max (set (map length (parse_rows table_lines))))"
proof -
  let ?rows = "parse_rows table_lines"
  let ?nc = "Max (set (map length ?rows))"
  let ?grid = "map (\<lambda>(i, row). map (\<lambda>t. [Run (if i = 0 then Bold else Plain) t]) row
                                     @ replicate (?nc - length row) [])
                       (enumerate 0 ?rows)"
  have le: "\<forall>row \<in> set ?rows. length row \<le> ?nc"
    by simp
  have len: "\<forall>r \<in> set ?grid. length r = ?nc"
  proof
    fix r
    assume "r \<in> set ?grid"
    then obtain i row where ir: "(i, row) \<in> set (enumerate 0 ?rows)"
      and r: "r = map (\<lambda>t. [Run (if i = 0 then Bold else Plain) t]) row
                    @ replicate (?nc - length row) []"
      by auto
    from ir have "row \<in> set ?rows"
      by (auto simp: in_set_enumerate_eq)
    with le have "length row \<le> ?nc" by blast
    with r show "length r = ?nc" by simp
  qed
  have c: "list_all (list_all xml_compatible) ?rows \<longleftrightarrow>
             (\<forall>row \<in> set ?rows. \<forall>c \<in> set row. xml_compatible c)"
    by (simp add: list_all_iff)
  have eq: "add_table_from_markdown doc table_lines =
                 (if \<forall>row \<in> set ?rows. \<forall>c \<in> set row. xml_compatible c
                  then Inr (doc @ [Table ?grid, Paragraph []]) else Inl NotXMLCompatible)"
    unfolding c [symmetric] by (rule add_table_from_markdown_eq [OF assms])
  from eq len show ?thesis by blast
qed

text \<open>
  C6. When a table is flushed, its rows are the cells of the lines that are not separator
  lines (and have a cell): no separator line gives a row. When there is a row, the table
  has one grid row for each, every grid row has as many cells as the longest row has, a
  row's cells hold its texts in order and the cells after them stay empty, and the runs
  of the first row, the header, are bold while the others are plain. The table is added
  unless the library refuses the text of a cell.
\<close>

theorem table_grid:
  assumes "rows = parse_rows table_lines" and "rows \<noteq> []"
    and "num_cols = Max (set (map length rows))"
  shows "rows = filter (\<lambda>r. r \<noteq> [])
                  (map parse_row (filter (\<lambda>l. \<not> is_separator_line l) table_lines))
    \<and> (\<exists>grid. add_table_from_markdown doc table_lines =
                 (if \<forall>row \<in> set rows. \<forall>c \<in> set row. xml_compatible c
                  then Inr (doc @ [Table grid, Paragraph []]) else Inl NotXMLCompatible)
          \<and> grid = map (\<lambda>(i, row). map (\<lambda>t. [Run (if i = 0 then Bold else Plain) t]) row
                                     @ replicate (num_cols - length row) [])
                       (enumerate 0 rows)
          \<and> (\<forall>r \<in> set grid. length r = num_cols))"
proof -
  from assms(1,2) have ne: "parse_rows table_lines \<noteq> []" by simp
  show ?thesis
    unfolding assms(3) unfolding assms(1)
    by (rule conjI [OF parse_rows_eq table_grid_parsed [OF ne]])
qed

theorem table_grid_witness:
  "add_table_from_markdown [] [u ''| A | B | C |'', u ''|---|:-:|---|'', u ''| 1 |''] =
     Inr [Table [[[Run Bold (u ''A'')], [Run Bold (u ''B'')], [Run Bold (u ''C'')]],
                 [[Run Plain (u ''1'')], [], []]],
          Paragraph []]"
proof -
  let ?tls = "[u ''| A | B | C |'', u ''|---|:-:|---|'', u ''| 1 |'']"
  let ?rows = "[[u ''A'', u ''B'', u ''C''], [u ''1'']]"
  have r: "?rows = parse_rows ?tls" by code_simp
  have ne: "?rows \<noteq> []" by simp
  have n: "(3::nat) = Max (set (map length ?rows))" by code_simp
  have x: "\<forall>row \<in> set ?rows. \<forall>c \<in> set row. xml_compatible c" by code_simp
  have g: "map (\<lambda>(i, row). map (\<lambda>t. [Run (if i = 0 then Bold else Plain) t]) row
                                     @ replicate (3 - length row) [])
                       (enumerate 0 ?rows) =
           [[[Run Bold (u ''A'')], [Run Bold (u ''B'')], [Run Bold (u ''C'')]],
                 [[Run Plain (u ''1'')], [], []]]"
    by code_simp
  from table_grid [OF r ne n, of "[]"]
  obtain grid where a: "add_table_from_markdown [] ?tls =
        (if \<forall>row \<in> set ?rows. \<forall>c \<in> set row. xml_compatible c
         then Inr ([] @ [Table grid, Paragraph []]) else Inl NotXMLCompatible)"
    and b: "grid = map (\<lambda>(i, row). map (\<lambda>t. [Run (if i = 0 then Bold else Plain) t]) row
                                     @ replicate (3 - length row) [])
                       (enumerate 0 ?rows)"
    by blast
  from b g have "grid = [[[Run Bold (u ''A'')], [Run Bold (u ''B'')], [Run Bold (u ''C'')]],
                 [[Run Plain (u ''1'')], [], []]]"
    by (rule trans)
  with a x show ?thesis by simp
qed

lemma parse_rows_nothing:
  "\<forall>l \<in> set table_lines. is_separator_line l \<or> parse_row l = [] \<Longrightarrow> parse_rows table_lines = []"
  by (induction table_lines) (auto simp: Let_def)

text \<open>
  C10. When every line of a flushed table is a separator line or has no cell that is not
  empty, no table is added: the document is left as it was, without the empty paragraph
  that follows a table.
\<close>

theorem table_of_separators_vanishes:
  assumes "\<forall>l \<in> set table_lines. is_separator_line l \<or> parse_row l = []"
  shows "add_table_from_markdown doc table_lines = Inr doc"
  using parse_rows_nothing [OF assms] by (simp add: add_table_from_markdown_def)

theorem table_of_separators_vanishes_witness:
  "add_table_from_markdown [Heading 1 (u ''T'')] [u ''|---|---|'', u ''| :-: | - |''] =
     Inr [Heading 1 (u ''T'')]
   \<and> segment (u ''intro\<newline>|---|---|\<newline>| :-: | - |\<newline>end'') =
     Inr [Paragraph [Run Plain (u ''intro'')], Paragraph [Run Plain (u ''end'')]]"
proof -
  have h: "\<forall>l \<in> set [u ''|---|---|'', u ''| :-: | - |'']. is_separator_line l \<or> parse_row l = []"
    by code_simp
  have e: "segment (u ''intro\<newline>|---|---|\<newline>| :-: | - |\<newline>end'') =
     Inr [Paragraph [Run Plain (u ''intro'')], Paragraph [Run Plain (u ''end'')]]"
    by code_simp
  from table_of_separators_vanishes [OF h, of "[Heading 1 (u ''T'')]"] e show ?thesis by simp
qed

section \<open>When the scan fails\<close>

lemma raises_only_xml_simps [simp]:
  "raises_only_xml (Inr x)" "raises_only_xml (Inl e) \<longleftrightarrow> e = NotXMLCompatible"
  by (simp_all add: raises_only_xml_def)

lemma raises_only_xml_and_then:
  "raises_only_xml m \<Longrightarrow> (\<And>x. raises_only_xml (f x)) \<Longrightarrow> raises_only_xml (and_then m f)"
  by (cases m) simp_all

lemma add_run_only: "raises_only_xml (add_run p st t)"
  by (simp add: add_run_def)

lemma format_part_only: "raises_only_xml (format_part p part)"
  by (simp add: format_part_def add_run_only)

lemma format_parts_only: "raises_only_xml (format_parts p parts)"
proof (induction parts arbitrary: p)
  case Nil
  show ?case by simp
next
  case (Cons part parts)
  then show ?case
    using format_part_only [of p part] by (cases "format_part p part") simp_all
qed

lemma add_formatted_text_only: "raises_only_xml (add_formatted_text p t)"
  by (simp add: add_formatted_text_def format_parts_only)

lemma format_items_only: "raises_only_xml (format_items items)"
proof (induction items)
  case Nil
  show ?case by simp
next
  case (Cons item items)
  show ?case
  proof (cases "add_formatted_text [] item")
    case (Inl e)
    with add_formatted_text_only [of "[]" item] show ?thesis by simp
  next
    case (Inr runs)
    with Cons show ?thesis by (cases "format_items items") simp_all
  qed
qed

lemma add_list_only: "raises_only_xml (add_list doc items lt)"
  by (simp add: add_list_def raises_only_xml_and_then format_items_only)

lemma add_heading_only: "raises_only_xml (add_heading doc t level)"
  by (simp add: add_heading_def)

lemma add_paragraph_only: "raises_only_xml (add_paragraph doc t)"
  by (simp add: add_paragraph_def raises_only_xml_and_then add_formatted_text_only)

lemma add_blockquote_only: "raises_only_xml (add_blockquote doc t)"
  by (simp add: add_blockquote_def raises_only_xml_and_then add_formatted_text_only)

lemma add_diagram_placeholder_only: "raises_only_xml (add_diagram_placeholder doc t)"
  by (simp add: add_diagram_placeholder_def)

lemma add_table_from_markdown_only: "raises_only_xml (add_table_from_markdown doc table_lines)"
proof (cases "parse_rows table_lines = []")
  case True
  then show ?thesis by (simp add: add_table_from_markdown_def)
next
  case False
  then show ?thesis by (simp add: add_table_from_markdown_eq)
qed

lemma flush_list_only: "raises_only_xml (flush_list s)"
  by (simp add: flush_list_def raises_only_xml_and_then add_list_only)

lemma classify_line_only: "raises_only_xml (classify_line lines s line)"
  unfolding classify_line_def
  by (auto simp: collect_table_lines_eq split: option.split
           intro!: raises_only_xml_and_then flush_list_only add_heading_only add_blockquote_only
                   add_diagram_placeholder_only add_table_from_markdown_only add_paragraph_only)

lemma loop_body_only:
  "line_index s < length lines \<Longrightarrow> raises_only_xml (loop_body lines s)"
  by (simp add: loop_body_def getitem_def Let_def raises_only_xml_and_then
        flush_list_only classify_line_only)

lemma process_loop_only: "raises_only_xml (process_loop lines s)"
proof (induction lines s rule: process_loop.induct)
  case (1 lines s)
  show ?case
  proof (cases "line_index s < length lines")
    case False
    then show ?thesis by (simp add: process_loop.simps [of lines s])
  next
    case True
    show ?thesis
    proof (cases "loop_body lines s")
      case (Inl e)
      with True loop_body_only [OF True] show ?thesis
        by (simp add: process_loop.simps [of lines s])
    next
      case (Inr s1)
      with True "1.IH" [OF True Inr] show ?thesis
        by (simp add: process_loop.simps [of lines s])
    qed
  qed
qed

lemma process_content_only: "raises_only_xml (process_content doc t)"
  by (simp add: process_content_def Let_def raises_only_xml_and_then process_loop_only
        add_list_only)

lemma xml_compatible_mono: "set a \<subseteq> set b \<Longrightarrow> xml_compatible b \<Longrightarrow> xml_compatible a"
  by (auto simp: xml_compatible_def list_all_iff)

lemma set_strip: "set (strip s) \<subseteq> set s"
proof -
  have "set (dropWhile isspace (rev (dropWhile isspace s))) \<subseteq> set (rev (dropWhile isspace s))"
    by (rule set_dropWhileD [THEN subsetI])
  also have "\<dots> \<subseteq> set s"
    by (auto dest: set_dropWhileD)
  finally show ?thesis by (simp add: strip_def)
qed

lemma set_slice: "set (slice a b s) \<subseteq> set s"
  unfolding slice_def
  by (meson set_drop_subset set_take_subset subset_trans)

lemma set_split_from: "l \<in> set (split_from sep cur t) \<Longrightarrow> set l \<subseteq> set cur \<union> set t"
proof (induction t arbitrary: cur)
  case Nil
  then show ?case by simp
next
  case (Cons a t)
  show ?case
  proof (cases "a = sep")
    case True
    with Cons.prems have "l = cur \<or> l \<in> set (split_from sep [] t)" by simp
    with Cons.IH [of "[]"] show ?thesis by auto
  next
    case False
    with Cons.prems have "l \<in> set (split_from sep (cur @ [a]) t)" by simp
    with Cons.IH [of "cur @ [a]"] show ?thesis by auto
  qed
qed

lemma set_re_split_from: "p \<in> set (re_split_from cur t) \<Longrightarrow> set p \<subseteq> set cur \<union> set t"
proof (induction cur t rule: re_split_from.induct)
  case (1 cur)
  then show ?case by simp
next
  case (2 cur c cs)
  show ?case
  proof (cases "match_inline (c # cs)")
    case None
    with 2 show ?thesis by auto
  next
    case (Some n)
    with "2.prems" have "p = cur \<or> p = take n (c # cs) \<or> p \<in> set (re_split_from [] (drop n (c # cs)))"
      by simp
    moreover have "set (take n (c # cs)) \<subseteq> set (c # cs)" by (rule set_take_subset)
    moreover have "set (drop n (c # cs)) \<subseteq> set (c # cs)" by (rule set_drop_subset)
    moreover have "p \<in> set (re_split_from [] (drop n (c # cs))) \<Longrightarrow>
                     set p \<subseteq> set [] \<union> set (drop n (c # cs))"
      using "2.IH"(2) [OF Some] .
    ultimately show ?thesis by auto
  qed
qed

lemma format_part_ok:
  "xml_compatible part \<Longrightarrow> \<exists>p'. format_part p part = Inr p'"
  by (auto simp: format_part_def add_run_def intro: xml_compatible_mono [OF set_slice])

lemma format_parts_ok:
  "\<forall>part \<in> set parts. xml_compatible part \<Longrightarrow> \<exists>r. format_parts p parts = Inr r"
proof (induction parts arbitrary: p)
  case Nil
  show ?case by simp
next
  case (Cons part parts)
  then obtain p' where "format_part p part = Inr p'"
    using format_part_ok [of part p] by auto
  with Cons show ?case by simp
qed

lemma add_formatted_text_ok:
  assumes "xml_compatible t"
  shows "\<exists>r. add_formatted_text p t = Inr r"
proof -
  have "\<forall>part \<in> set (re_split t). xml_compatible part"
  proof
    fix part
    assume "part \<in> set (re_split t)"
    then have "set part \<subseteq> set t"
      using set_re_split_from [of part "[]" t] by (simp add: re_split_def)
    with assms show "xml_compatible part" by (rule xml_compatible_mono [rotated])
  qed
  then show ?thesis
    by (simp add: add_formatted_text_def format_parts_ok)
qed

lemma format_items_ok:
  "\<forall>item \<in> set items. xml_compatible item \<Longrightarrow> \<exists>r. format_items items = Inr r"
proof (induction items)
  case Nil
  show ?case by simp
next
  case (Cons item items)
  then obtain runs where "add_formatted_text [] item = Inr runs"
    using add_formatted_text_ok [of item "[]"] by auto
  moreover from Cons obtain r where "format_items items = Inr r" by auto
  ultimately show ?case by simp
qed

lemma add_list_ok:
  "\<forall>item \<in> set items. xml_compatible item \<Longrightarrow> \<exists>d. add_list doc items lt = Inr d"
  using format_items_ok [of items] by (auto simp: add_list_def)

lemma flush_list_ok:
  assumes "\<forall>item \<in> set (list_items s). xml_compatible item"
  shows "\<exists>s1. flush_list s = Inr s1 \<and> list_items s1 = []"
  using add_list_ok [OF assms, of "document s" "current_list_type s"]
  by (auto simp: flush_list_def)

lemma set_sub_numbered: "set (sub_numbered s) \<subseteq> set s"
  by (auto simp: sub_numbered_def split: option.splits dest: in_set_dropD)

lemma set_match_diagram: "match_diagram s = Some d \<Longrightarrow> set d \<subseteq> set s"
  by (auto simp: match_diagram_def Let_def split: if_splits
           dest!: in_set_takeD set_dropWhileD in_set_dropD)

lemma set_search_diagram: "search_diagram s = Some d \<Longrightarrow> set d \<subseteq> set s"
proof (induction s)
  case Nil
  then show ?case by simp
next
  case (Cons c cs)
  show ?case
  proof (cases "match_diagram (c # cs)")
    case None
    with Cons show ?thesis by auto
  next
    case (Some d')
    with Cons.prems set_match_diagram [OF Some] show ?thesis by simp
  qed
qed

lemma set_parse_row: "c \<in> set (parse_row line) \<Longrightarrow> set c \<subseteq> set line"
proof -
  assume "c \<in> set (parse_row line)"
  then obtain cell where cell: "cell \<in> set (split 124 line)" and c: "c = strip cell"
    by (auto simp: parse_row_def)
  from cell have "set cell \<subseteq> set line"
    using set_split_from [of cell 124 "[]" line] by (simp add: split_def)
  with set_strip [of cell] c show ?thesis by auto
qed

lemma set_parse_rows:
  "row \<in> set (parse_rows table_lines) \<Longrightarrow> c \<in> set row \<Longrightarrow>
     \<exists>l \<in> set table_lines. set c \<subseteq> set l"
  by (auto simp: parse_rows_eq dest: set_parse_row)

lemma add_table_from_markdown_ok:
  assumes "\<forall>l \<in> set table_lines. xml_compatible l"
  shows "\<exists>d. add_table_from_markdown doc table_lines = Inr d"
proof (cases "parse_rows table_lines = []")
  case True
  then show ?thesis by (simp add: add_table_from_markdown_def)
next
  case False
  have "list_all (list_all xml_compatible) (parse_rows table_lines)"
    unfolding list_all_iff
  proof (intro ballI)
    fix row c
    assume "row \<in> set (parse_rows table_lines)" and "c \<in> set row"
    then obtain l where "l \<in> set table_lines" and "set c \<subseteq> set l"
      using set_parse_rows by blast
    with assms show "xml_compatible c"
      using xml_compatible_mono by blast
  qed
  with False show ?thesis by (simp add: add_table_from_markdown_eq)
qed

lemma classify_line_ok:
  assumes items: "\<forall>item \<in> set (list_items s). xml_compatible item"
    and line: "xml_compatible line"
    and lines: "\<forall>l \<in> set lines. xml_compatible l"
  shows "\<exists>s'. classify_line lines s line = Inr s' \<and> (\<forall>item \<in> set (list_items s'). xml_compatible item)"
proof -
  from flush_list_ok [OF items] obtain s1 where fl: "flush_list s = Inr s1"
    and s1: "list_items s1 = []"
    by blast
  have dr: "xml_compatible (drop n line)" for n
    using line by (rule xml_compatible_mono [OF set_drop_subset])
  have sn: "xml_compatible (sub_numbered line)"
    using line by (rule xml_compatible_mono [OF set_sub_numbered])
  obtain rb where rb: "add_formatted_text [] (drop 2 line) = Inr rb"
    using add_formatted_text_ok [OF dr] by blast
  obtain rp where rp: "add_formatted_text [] line = Inr rp"
    using add_formatted_text_ok [OF line] by blast
  have dg: "xml_compatible d" if "search_diagram line = Some d" for d
    using line by (rule xml_compatible_mono [OF set_search_diagram [OF that]])
  let ?tls = "line # map strip (takeWhile (\<lambda>l. 124 \<in> set l) (drop (Suc (line_index s)) lines))"
  have "\<forall>l \<in> set ?tls. xml_compatible l"
  proof
    fix l
    assume "l \<in> set ?tls"
    then consider "l = line"
      | r where "r \<in> set lines" and "l = strip r"
      by (auto dest!: set_takeWhileD in_set_dropD)
    then show "xml_compatible l"
    proof cases
      case 1
      with line show ?thesis by simp
    next
      case 2
      with lines xml_compatible_mono [OF set_strip] show ?thesis by blast
    qed
  qed
  then obtain dt where dt: "add_table_from_markdown (document s1) ?tls = Inr dt"
    using add_table_from_markdown_ok by blast
  show ?thesis
    unfolding classify_line_def
    using items s1 dr sn dg
    by (simp add: fl rb rp dt add_heading_def add_blockquote_def add_paragraph_def
          add_diagram_placeholder_def collect_table_lines_eq split: option.split)
qed

lemma loop_body_ok:
  assumes "line_index s < length lines"
    and items: "\<forall>item \<in> set (list_items s). xml_compatible item"
    and lines: "\<forall>l \<in> set lines. xml_compatible l"
  shows "\<exists>s'. loop_body lines s = Inr s' \<and> (\<forall>item \<in> set (list_items s'). xml_compatible item)"
proof -
  let ?line = "strip (lines ! line_index s)"
  from assms(1) lines have "xml_compatible (lines ! line_index s)" by simp
  then have line: "xml_compatible ?line"
    by (rule xml_compatible_mono [OF set_strip])
  from flush_list_ok [OF items] obtain s1 where fl: "flush_list s = Inr s1"
    and s1: "list_items s1 = []"
    by blast
  from classify_line_ok [OF items line lines] obtain s2
    where c: "classify_line lines s ?line = Inr s2"
      and i2: "\<forall>item \<in> set (list_items s2). xml_compatible item"
    by blast
  from assms(1) fl s1 c i2 show ?thesis
    by (simp add: loop_body_def getitem_def Let_def next_line_def)
qed

lemma process_loop_ok:
  assumes "\<forall>item \<in> set (list_items s). xml_compatible item"
    and "\<forall>l \<in> set lines. xml_compatible l"
  shows "\<exists>s'. process_loop lines s = Inr s' \<and> (\<forall>item \<in> set (list_items s'). xml_compatible item)"
  using assms
proof (induction lines s rule: process_loop.induct)
  case (1 lines s)
  show ?case
  proof (cases "line_index s < length lines")
    case False
    with "1.prems" show ?thesis by (simp add: process_loop.simps [of lines s])
  next
    case True
    from loop_body_ok [OF True "1.prems"] obtain s1 where b: "loop_body lines s = Inr s1"
      and i1: "\<forall>item \<in> set (list_items s1). xml_compatible item"
      by blast
    from "1.IH" [OF True b i1 "1.prems"(2)] True b show ?thesis
      by (simp add: process_loop.simps [of lines s])
  qed
qed

lemma process_content_ok:
  assumes "xml_compatible t"
  shows "\<exists>d. process_content doc t = Inr d"
proof -
  have "\<forall>l \<in> set (split 10 t). xml_compatible l"
  proof
    fix l
    assume "l \<in> set (split 10 t)"
    then have "set l \<subseteq> set t"
      using set_split_from [of l 10 "[]" t] by (simp add: split_def)
    with assms show "xml_compatible l" by (rule xml_compatible_mono [rotated])
  qed
  from process_loop_ok [OF _ this, of "\<lparr>line_index = 0, current_list_type = None, list_items = [], document = doc\<rparr>"]
  obtain s' where p: "process_loop (split 10 t)
        \<lparr>line_index = 0, current_list_type = None, list_items = [], document = doc\<rparr> = Inr s'"
    and i: "\<forall>item \<in> set (list_items s'). xml_compatible item"
    by auto
  from add_list_ok [OF i, of "document s'" "current_list_type s'"] p show ?thesis
    by (auto simp: process_content_def Let_def)
qed

text \<open>
  C8, as stated: no input makes the scan or the formatter raise. The text that is put in
  the document goes to the library unchanged, and the library refuses a text with a
  control character: the line \<^verbatim>\<open>a\x01b\<close> is a paragraph, its only part is a plain run,
  and adding the run raises.
\<close>

theorem control_character_raises:
  "\<not> xml_compatible [97, 1, 98]
   \<and> add_formatted_text [] [97, 1, 98] = Inl NotXMLCompatible
   \<and> segment [97, 1, 98] = Inl NotXMLCompatible"
  by code_simp

text \<open>
  C8, amended: the scan and the formatter end for every input, and they return normally
  for every text that has only code points XML can hold; for the empty text the scan adds
  nothing. Whatever the input, the scan's own partial operations are reached only where
  they are defined (the index into the lines is below their number, the maximum is taken
  of a list that is not empty, the cells filled exist), so the one exception the scan, the
  formatter and the making of a table can raise is the library's refusal of a text.
\<close>

theorem scan_raises_only_what_the_library_refuses:
  "(xml_compatible t \<longrightarrow> (\<exists>blocks. segment t = Inr blocks))
   \<and> (\<forall>e. segment t = Inl e \<longrightarrow> e = NotXMLCompatible)
   \<and> (xml_compatible f \<longrightarrow> (\<exists>runs. add_formatted_text paragraph f = Inr runs))
   \<and> (\<forall>e. add_formatted_text paragraph f = Inl e \<longrightarrow> e = NotXMLCompatible)
   \<and> (\<forall>e. add_table_from_markdown doc table_lines = Inl e \<longrightarrow> e = NotXMLCompatible)
   \<and> segment [] = Inr []"
proof -
  have e: "segment [] = Inr []" by code_simp
  have r: "raises_only_xml m \<Longrightarrow> \<forall>e. m = Inl e \<longrightarrow> e = NotXMLCompatible" for m :: "error + 'a"
    by (cases m) simp_all
  from process_content_ok [of t "[]"] add_formatted_text_ok [of f "paragraph"]
    r [OF process_content_only [of "[]" t]] r [OF add_formatted_text_only [of "paragraph" f]]
    r [OF add_table_from_markdown_only [of doc table_lines]] e
  show ?thesis by (simp add: segment_def)
qed

theorem scan_raises_only_what_the_library_refuses_witness:
  "(\<exists>blocks. segment (u ''# T\<newline>- a\<newline>\<newline>| x | y |\<newline>> q **r**'') = Inr blocks)
   \<and> (\<exists>runs. add_formatted_text [] (u ''a **b** $c$'') = Inr runs)"
proof -
  have x: "xml_compatible (u ''# T\<newline>- a\<newline>\<newline>| x | y |\<newline>> q **r**'')"
     "xml_compatible (u ''a **b** $c$'')"
    by code_simp+
  from scan_raises_only_what_the_library_refuses
         [of "u ''# T\<newline>- a\<newline>\<newline>| x | y |\<newline>> q **r**''" "u ''a **b** $c$''" "[]"] x
  show ?thesis by simp
qed

section \<open>What a call depends on\<close>

lemma and_then_map_sum:
  "and_then (map_sum id g m) f = and_then m (\<lambda>x. f (g x))"
  by (cases m) simp_all














end
